theory Spec2Isabelle
  imports Main
begin

section \<open>JavaScript values and arrays used by the game\<close>

text \<open>
  A board cell holds \<open>null\<close> (the initial fill), a string (the player symbols
  \<open>'x'\<close> and \<open>'o'\<close>), or reads as \<open>undefined\<close> (a position outside the
  array, or a hole left when an array is extended by a write past its end).
\<close>

datatype cell = Null | Undefined | Str string

text \<open>JavaScript truthiness: \<open>null\<close>, \<open>undefined\<close> and the empty string are falsy.\<close>

fun truthy :: "cell \<Rightarrow> bool" where
  "truthy Null = False"
| "truthy Undefined = False"
| "truthy (Str s) = (s \<noteq> [])"

text \<open>String conversion, as done by \<open>'...' + v\<close>.\<close>

fun js_to_string :: "cell \<Rightarrow> string" where
  "js_to_string Null = ''null''"
| "js_to_string Undefined = ''undefined''"
| "js_to_string (Str s) = s"

text \<open>
  \<open>arr[i]\<close>: a read outside the array yields \<open>undefined\<close>, it does not raise.
  Indices are natural numbers: the board component only ever passes the elements of
  \<open>cells\<close>, and the move list passes positions of \<open>history.map\<close>.
\<close>

definition js_get :: "cell list \<Rightarrow> nat \<Rightarrow> cell" where
  "js_get xs i = (if i < length xs then xs ! i else Undefined)"

text \<open>
  \<open>arr[i] = v\<close>: a write past the end extends the array; the positions in
  between are holes, which read as \<open>undefined\<close>.
\<close>

definition js_set :: "cell list \<Rightarrow> nat \<Rightarrow> cell \<Rightarrow> cell list" where
  "js_set xs i v =
     (if i < length xs then xs[i := v]
      else xs @ replicate (i - length xs) Undefined @ [v])"

datatype js_error = TypeError

section \<open>calculateWinner\<close>

definition lines :: "(nat \<times> nat \<times> nat) list" where
  "lines =
     [(0, 1, 2),
      (3, 4, 5),
      (6, 7, 8),
      (0, 3, 6),
      (1, 4, 7),
      (2, 5, 8),
      (0, 4, 8),
      (2, 4, 6)]"

text \<open>The body of the \<open>for\<close> loop, run over the remaining lines.\<close>

fun scan_lines :: "(nat \<times> nat \<times> nat) list \<Rightarrow> cell list \<Rightarrow> cell" where
  "scan_lines [] sq = Null"
| "scan_lines ((a, b, c) # ls) sq =
     (if truthy (js_get sq a) \<and> js_get sq a = js_get sq b \<and> js_get sq a = js_get sq c
      then js_get sq a
      else scan_lines ls sq)"

definition calculateWinner :: "cell list \<Rightarrow> cell" where
  "calculateWinner sq = scan_lines lines sq"

section \<open>Game state\<close>

record move_entry =
  squares :: "cell list"
  clickIndex :: "nat option"

record game_state =
  history :: "move_entry list"
  xIsNext :: bool
  stepNumber :: nat

text \<open>The state set up by the constructor.\<close>

definition initial_state :: game_state where
  "initial_state =
     \<lparr>history = [\<lparr>squares = replicate 9 Null, clickIndex = None\<rparr>],
      xIsNext = True,
      stepNumber = 0\<rparr>"

text \<open>
  \<open>handleClick(i)\<close>. \<open>history[history.length - 1]\<close> is \<open>undefined\<close> when the
  sliced history is empty, and reading \<open>.squares\<close> of it raises a TypeError. The early
  \<open>return\<close> leaves the state as it is; \<open>setState\<close> replaces the three fields.
\<close>

definition handleClick :: "nat \<Rightarrow> game_state \<Rightarrow> js_error + game_state" where
  "handleClick i s =
     (let hist = take (stepNumber s + 1) (history s) in
      if hist = [] then Inl TypeError
      else
        let current = hist ! (length hist - 1);
            sq = squares current
        in
          if truthy (js_get sq i) \<or> truthy (calculateWinner sq) then Inr s
          else
            let sq' = js_set sq i (if xIsNext s then Str ''x'' else Str ''o'') in
              Inr (s\<lparr>history := hist @ [\<lparr>squares = sq', clickIndex = Some i\<rparr>],
                     stepNumber := length hist,
                     xIsNext := \<not> xIsNext s\<rparr>))"

text \<open>\<open>jumpTo(step)\<close>: \<open>setState\<close> with two fields leaves \<open>history\<close> alone.\<close>

definition jumpTo :: "nat \<Rightarrow> game_state \<Rightarrow> game_state" where
  "jumpTo step s = s\<lparr>stepNumber := step, xIsNext := (step mod 2 = 0)\<rparr>"

section \<open>Status\<close>

text \<open>What the component renders: the class of the inner element and its text.\<close>

record status_view =
  status_className :: string
  status_text :: string

definition Status :: "cell list \<Rightarrow> bool \<Rightarrow> status_view" where
  "Status sq xn =
     (let winner = calculateWinner sq;
          effect = (if truthy winner then ''bounce'' else []);
          status = (if truthy winner then ''Winner is: '' @ js_to_string winner
                    else ''Next player is: '' @ (if xn then ''x'' else ''o''))
      in \<lparr>status_className = ''status '' @ effect, status_text = status\<rparr>)"

section \<open>Runs of the game\<close>

text \<open>A sequence of \<open>handleClick\<close> calls; a raised error ends it.\<close>

fun handleClicks :: "nat list \<Rightarrow> game_state \<Rightarrow> js_error + game_state" where
  "handleClicks [] s = Inr s"
| "handleClicks (i # is) s =
     (case handleClick i s of Inl e \<Rightarrow> Inl e | Inr s' \<Rightarrow> handleClicks is s')"

text \<open>
  The states the game can be in: the initial one, and those obtained by
  \<open>handleClick\<close> with any index and by \<open>jumpTo\<close> with a position of the history
  (the move list offers one button per history entry).
\<close>

inductive reachable :: "game_state \<Rightarrow> bool" where
  reachable_initial: "reachable initial_state"
| reachable_handleClick: "reachable s \<Longrightarrow> handleClick i s = Inr s' \<Longrightarrow> reachable s'"
| reachable_jumpTo: "reachable s \<Longrightarrow> step < length (history s) \<Longrightarrow> reachable (jumpTo step s)"

section \<open>Moves\<close>

text \<open>Decimal text of a number, as \<open>'...' + n\<close> produces it for an array position.\<close>

fun string_of_nat :: "nat \<Rightarrow> string" where
  "string_of_nat n =
     (if n < 10 then [''0123456789'' ! n]
      else string_of_nat (n div 10) @ [''0123456789'' ! (n mod 10)])"

declare string_of_nat.simps [simp del]

text \<open>Numeric conversion of a stored click index: \<open>null\<close> converts to 0.\<close>

fun to_number :: "nat option \<Rightarrow> nat" where
  "to_number None = 0"
| "to_number (Some i) = i"

text \<open>
  One list item: its key, the class and text of its button, and the button's click
  handler, which calls the \<open>onClick\<close> property with the position.
\<close>

record 'a move_button =
  btn_key :: nat
  btn_className :: string
  btn_desc :: string
  btn_onClick :: "unit \<Rightarrow> 'a"

definition Moves :: "move_entry list \<Rightarrow> nat \<Rightarrow> (nat \<Rightarrow> 'a) \<Rightarrow> 'a move_button list" where
  "Moves hist stepNo onClick =
     map (\<lambda>(step, move).
            let ci = clickIndex step;
                col = to_number ci mod 3;
                row = to_number ci div 3;
                clickPosition = ''(row:'' @ string_of_nat row @ '', col:'' @ string_of_nat col @ '')'';
                desc = (if move \<noteq> 0 then ''Go to move #'' @ string_of_nat move @ '' '' @ clickPosition
                        else ''Go to game start'');
                btn_highlight = (if stepNo = move then ''btn-primary'' else ''btn-secondary'')
            in \<lparr>btn_key = move,
                btn_className = ''btn '' @ btn_highlight @ '' btn-block'',
                btn_desc = desc,
                btn_onClick = (\<lambda>_. onClick move)\<rparr>)
         (zip hist [0..<length hist])"

section \<open>Notions used to state the properties\<close>

text \<open>
  The condition of the spec on one triple: its three cells are all non-empty and
  identical.
\<close>

definition spec_line_match :: "cell list \<Rightarrow> nat \<times> nat \<times> nat \<Rightarrow> bool" where
  "spec_line_match sq l =
     (case l of (a, b, c) \<Rightarrow>
        truthy (js_get sq a) \<and> truthy (js_get sq b) \<and> truthy (js_get sq c)
        \<and> js_get sq a = js_get sq b \<and> js_get sq b = js_get sq c)"

text \<open>The symbol of the player whose turn it is.\<close>

definition symbol_for :: "bool \<Rightarrow> cell" where
  "symbol_for xn = (if xn then Str ''x'' else Str ''o'')"

text \<open>
  The state after a sequence of \<open>handleClick\<close> calls from the initial state (the
  initial state again, should a call raise).
\<close>

definition after_clicks :: "nat list \<Rightarrow> game_state" where
  "after_clicks cs = (case handleClicks cs initial_state of Inr s \<Rightarrow> s | Inl e \<Rightarrow> initial_state)"

text \<open>
  The symbols placed, in order, by those calls of a sequence that are successful, that
  is, that change the state: each is read from the board of the new current entry, at
  the clicked cell.
\<close>

fun placed_symbols :: "nat list \<Rightarrow> game_state \<Rightarrow> cell list" where
  "placed_symbols [] s = []"
| "placed_symbols (i # is) s =
     (case handleClick i s of
        Inl e \<Rightarrow> []
      | Inr s' \<Rightarrow>
          if s' = s then placed_symbols is s'
          else js_get (squares (history s' ! stepNumber s')) i # placed_symbols is s')"

text \<open>
  Each history entry after the first comes from the one before it by writing the symbol
  of its move number into a cell that was empty.
\<close>

definition history_chain :: "move_entry list \<Rightarrow> bool" where
  "history_chain h =
     (\<forall>n. Suc n < length h \<longrightarrow>
        (\<exists>i. \<not> truthy (js_get (squares (h ! n)) i)
           \<and> h ! Suc n = \<lparr>squares = js_set (squares (h ! n)) i (symbol_for (even n)),
                           clickIndex = Some i\<rparr>))"

definition game_inv :: "game_state \<Rightarrow> bool" where
  "game_inv s =
     (stepNumber s < length (history s)
      \<and> xIsNext s = even (stepNumber s)
      \<and> history s ! 0 = \<lparr>squares = replicate 9 Null, clickIndex = None\<rparr>
      \<and> history_chain (history s))"

section \<open>Facts about arrays and the winner scan\<close>

lemma js_get_js_set: "js_get (js_set xs i v) j = (if j = i then v else js_get xs j)"
  by (auto simp: js_get_def js_set_def nth_append)

lemma length_js_set: "i < length xs \<Longrightarrow> length (js_set xs i v) = length xs"
  by (simp add: js_set_def)

lemma truthy_js_get_in_set: "truthy (js_get xs i) \<Longrightarrow> js_get xs i \<in> set xs"
  by (auto simp: js_get_def split: if_splits)

lemma js_get_replicate_Null: "\<not> truthy (js_get (replicate n Null) i)"
  by (simp add: js_get_def)

lemma scan_lines_find:
  "scan_lines ls sq =
     (case find (spec_line_match sq) ls of None \<Rightarrow> Null | Some (a, b, c) \<Rightarrow> js_get sq a)"
proof (induction ls)
  case Nil
  show ?case by simp
next
  case (Cons l ls)
  obtain a b c where l: "l = (a, b, c)" by (cases l) auto
  show ?case
    unfolding l using Cons.IH by (auto simp: spec_line_match_def)
qed

lemma scan_lines_result:
  "scan_lines ls sq = Null \<or> (truthy (scan_lines ls sq) \<and> scan_lines ls sq \<in> set sq)"
proof (induction ls)
  case Nil
  show ?case by simp
next
  case (Cons l ls)
  obtain a b c where l: "l = (a, b, c)" by (cases l) auto
  show ?case
    unfolding l using Cons.IH by (auto dest: truthy_js_get_in_set)
qed

lemma calculateWinner_result:
  "calculateWinner sq = Null \<or> (truthy (calculateWinner sq) \<and> calculateWinner sq \<in> set sq)"
  unfolding calculateWinner_def by (rule scan_lines_result)

lemma truthy_calculateWinner: "truthy (calculateWinner sq) = (calculateWinner sq \<noteq> Null)"
  using calculateWinner_result [of sq] by auto

lemma calculateWinner_empty_board: "calculateWinner (replicate 9 Null) = Null"
  by (simp add: calculateWinner_def lines_def js_get_def)

section \<open>Facts about the game state\<close>

lemma handleClick_in_range:
  assumes "stepNumber s < length (history s)"
  shows "handleClick i s =
     (if truthy (js_get (squares (history s ! stepNumber s)) i)
         \<or> calculateWinner (squares (history s ! stepNumber s)) \<noteq> Null
      then Inr s
      else Inr \<lparr>history = take (Suc (stepNumber s)) (history s)
                   @ [\<lparr>squares = js_set (squares (history s ! stepNumber s)) i (symbol_for (xIsNext s)),
                       clickIndex = Some i\<rparr>],
                xIsNext = \<not> xIsNext s,
                stepNumber = Suc (stepNumber s)\<rparr>)"
proof -
  let ?hist = "take (Suc (stepNumber s)) (history s)"
  from assms have len: "length ?hist = Suc (stepNumber s)" by simp
  then have ne: "?hist \<noteq> []" by auto
  from assms have cur: "?hist ! (length ?hist - 1) = history s ! stepNumber s"
    by (simp add: len)
  show ?thesis
    unfolding handleClick_def Let_def
    using ne cur len
    by (simp add: truthy_calculateWinner symbol_for_def)
qed

lemma handleClick_empty_history: "history s = [] \<Longrightarrow> handleClick i s = Inl TypeError"
  by (simp add: handleClick_def)

lemma count_list_update_other:
  "i < length xs \<Longrightarrow> xs ! i \<noteq> w \<Longrightarrow>
     count_list (xs[i := v]) w = count_list xs w + (if v = w then 1 else 0)"
  by (induction xs arbitrary: i) (auto split: nat.splits)

lemma count_list_js_set:
  assumes "\<not> truthy (js_get xs i)" and "truthy w"
  shows "count_list (js_set xs i v) w = count_list xs w + (if v = w then 1 else 0)"
proof (cases "i < length xs")
  case True
  with assms have "xs ! i \<noteq> w" by (auto simp: js_get_def)
  with True show ?thesis by (simp add: js_set_def count_list_update_other)
next
  case False
  from assms(2) have "w \<noteq> Undefined" by auto
  then have "count_list (replicate (i - length xs) Undefined) w = 0"
    by (simp add: count_list_0_iff)
  with False show ?thesis by (simp add: js_set_def)
qed

lemma scan_lines_winner_line:
  "scan_lines ls sq \<noteq> Null \<Longrightarrow>
     \<exists>(a, b, c) \<in> set ls. truthy (js_get sq a) \<and> truthy (js_get sq b) \<and> truthy (js_get sq c)"
proof (induction ls)
  case Nil
  then show ?case by simp
next
  case (Cons l ls)
  obtain a b c where l: "l = (a, b, c)" by (cases l) auto
  show ?case
  proof (cases "truthy (js_get sq a) \<and> js_get sq a = js_get sq b \<and> js_get sq a = js_get sq c")
    case True
    then show ?thesis unfolding l by auto
  next
    case False
    with Cons.prems have "scan_lines ls sq \<noteq> Null" unfolding l by auto
    from Cons.IH [OF this] show ?thesis by auto
  qed
qed

lemma lines_distinct: "\<forall>(a, b, c) \<in> set lines. a \<noteq> b \<and> a \<noteq> c \<and> b \<noteq> c"
  by (simp add: lines_def)

lemma no_winner_two_marks:
  assumes "\<And>j. \<not> truthy (js_get b j)"
  shows "calculateWinner (js_set (js_set b i0 v0) i1 v1) = Null"
proof (rule ccontr)
  let ?sq = "js_set (js_set b i0 v0) i1 v1"
  assume "calculateWinner ?sq \<noteq> Null"
  then obtain a b' c where in_lines: "(a, b', c) \<in> set lines"
    and t: "truthy (js_get ?sq a)" "truthy (js_get ?sq b')" "truthy (js_get ?sq c)"
    unfolding calculateWinner_def using scan_lines_winner_line by blast
  have two: "j = i0 \<or> j = i1" if "truthy (js_get ?sq j)" for j
    using that assms by (auto simp: js_get_js_set split: if_splits)
  from in_lines lines_distinct have "a \<noteq> b' \<and> a \<noteq> c \<and> b' \<noteq> c" by blast
  with two [OF t(1)] two [OF t(2)] two [OF t(3)] show False by auto
qed


lemma history_chain_extend:
  assumes ch: "history_chain h" and k: "k < length h"
    and e: "\<not> truthy (js_get (squares (h ! k)) i)"
  shows "history_chain (take (Suc k) h
           @ [\<lparr>squares = js_set (squares (h ! k)) i (symbol_for (even k)), clickIndex = Some i\<rparr>])"
  unfolding history_chain_def
proof (intro allI impI)
  let ?new = "\<lparr>squares = js_set (squares (h ! k)) i (symbol_for (even k)), clickIndex = Some i\<rparr>"
  let ?h = "take (Suc k) h @ [?new]"
  fix n
  assume "Suc n < length ?h"
  with k have n: "n \<le> k" by simp
  show "\<exists>j. \<not> truthy (js_get (squares (?h ! n)) j)
          \<and> ?h ! Suc n = \<lparr>squares = js_set (squares (?h ! n)) j (symbol_for (even n)),
                            clickIndex = Some j\<rparr>"
  proof (cases "n = k")
    case True
    with k have "?h ! n = h ! k" "?h ! Suc n = ?new"
      by (simp_all add: nth_append)
    with e True show ?thesis by auto
  next
    case False
    with n k have lt: "Suc n < length h" "n < k" by simp_all
    with k have "?h ! n = h ! n" "?h ! Suc n = h ! Suc n"
      by (simp_all add: nth_append)
    with ch lt(1) show ?thesis unfolding history_chain_def by simp
  qed
qed

lemma game_inv_initial: "game_inv initial_state"
  by (simp add: game_inv_def initial_state_def history_chain_def)

lemma game_inv_handleClick:
  assumes inv: "game_inv s" and step: "handleClick i s = Inr s'"
  shows "game_inv s'"
proof -
  let ?k = "stepNumber s"
  let ?b = "squares (history s ! ?k)"
  from inv have k: "?k < length (history s)" and x: "xIsNext s = even ?k"
    and h0: "history s ! 0 = \<lparr>squares = replicate 9 Null, clickIndex = None\<rparr>"
    and ch: "history_chain (history s)"
    by (simp_all add: game_inv_def)
  show ?thesis
  proof (cases "truthy (js_get ?b i) \<or> calculateWinner ?b \<noteq> Null")
    case True
    with step k inv show ?thesis by (simp add: handleClick_in_range)
  next
    case False
    with step k have s': "s' = \<lparr>history = take (Suc ?k) (history s)
                   @ [\<lparr>squares = js_set ?b i (symbol_for (xIsNext s)), clickIndex = Some i\<rparr>],
                xIsNext = \<not> xIsNext s,
                stepNumber = Suc ?k\<rparr>"
      by (simp add: handleClick_in_range)
    from False have e: "\<not> truthy (js_get ?b i)" by simp
    from history_chain_extend [OF ch k e] x
    have "history_chain (history s')" by (simp add: s')
    moreover from k h0 have "history s' ! 0 = \<lparr>squares = replicate 9 Null, clickIndex = None\<rparr>"
      by (simp add: s' nth_append)
    moreover from k x have "stepNumber s' < length (history s')" "xIsNext s' = even (stepNumber s')"
      by (simp_all add: s')
    ultimately show ?thesis by (simp add: game_inv_def)
  qed
qed

lemma game_inv_jumpTo: "game_inv s \<Longrightarrow> step < length (history s) \<Longrightarrow> game_inv (jumpTo step s)"
  by (simp add: game_inv_def jumpTo_def even_iff_mod_2_eq_zero)

lemma reachable_game_inv: "reachable s \<Longrightarrow> game_inv s"
  by (induction rule: reachable.induct)
    (auto intro: game_inv_initial game_inv_handleClick game_inv_jumpTo)

lemma chain_counts:
  assumes ch: "history_chain h"
    and h0: "h ! 0 = \<lparr>squares = replicate 9 Null, clickIndex = None\<rparr>"
  shows "n < length h \<Longrightarrow>
     count_list (squares (h ! n)) (Str ''x'') = (n + 1) div 2
     \<and> count_list (squares (h ! n)) (Str ''o'') = n div 2"
proof (induction n)
  case 0
  with h0 show ?case by (simp add: count_list_0_iff)
next
  case (Suc n)
  then have IH: "count_list (squares (h ! n)) (Str ''x'') = (n + 1) div 2"
      "count_list (squares (h ! n)) (Str ''o'') = n div 2"
    by simp_all
  from ch Suc.prems obtain i where e: "\<not> truthy (js_get (squares (h ! n)) i)"
    and nx: "h ! Suc n = \<lparr>squares = js_set (squares (h ! n)) i (symbol_for (even n)),
                           clickIndex = Some i\<rparr>"
    unfolding history_chain_def by blast
  show ?case
  proof (cases "even n")
    case True
    with nx e IH show ?thesis
      by (simp add: count_list_js_set symbol_for_def)
  next
    case False
    with nx e IH show ?thesis
      by (simp add: count_list_js_set symbol_for_def)
  qed
qed

lemma reachable_handleClick_Inr:
  assumes "reachable s"
  shows "\<exists>s'. handleClick i s = Inr s'"
proof -
  from assms have "stepNumber s < length (history s)"
    using reachable_game_inv by (simp add: game_inv_def)
  then show ?thesis by (simp add: handleClick_in_range)
qed

lemma reachable_handleClicks:
  "reachable s \<Longrightarrow> \<exists>t. handleClicks cs s = Inr t \<and> reachable t"
proof (induction cs arbitrary: s)
  case Nil
  then show ?case by simp
next
  case (Cons i cs)
  from reachable_handleClick_Inr [OF Cons.prems] obtain s' where s': "handleClick i s = Inr s'"
    by blast
  with Cons.prems have "reachable s'" by (rule reachable_handleClick)
  from Cons.IH [OF this] s' show ?case by simp
qed

lemma reachable_after_clicks: "reachable (after_clicks cs)"
  using reachable_handleClicks [OF reachable_initial, of cs]
  by (auto simp: after_clicks_def)

lemma handleClicks_noop:
  assumes "stepNumber s < length (history s)"
    and "calculateWinner (squares (history s ! stepNumber s)) \<noteq> Null"
  shows "handleClicks cs s = Inr s"
  using assms by (induction cs) (simp_all add: handleClick_in_range)

lemma handleClick_success:
  assumes inv: "game_inv s" and step: "handleClick i s = Inr s'" and ch: "s' \<noteq> s"
  shows "stepNumber s' = Suc (stepNumber s)"
    and "length (history s') = Suc (Suc (stepNumber s))"
    and "\<not> truthy (js_get (squares (history s ! stepNumber s)) i)"
    and "js_get (squares (history s' ! stepNumber s')) i = symbol_for (even (stepNumber s))"
proof -
  let ?k = "stepNumber s"
  let ?b = "squares (history s ! ?k)"
  from inv have k: "?k < length (history s)" and x: "xIsNext s = even ?k"
    by (simp_all add: game_inv_def)
  from step ch k have e: "\<not> (truthy (js_get ?b i) \<or> calculateWinner ?b \<noteq> Null)"
    by (auto simp: handleClick_in_range split: if_splits)
  with step k have s': "s' = \<lparr>history = take (Suc ?k) (history s)
                   @ [\<lparr>squares = js_set ?b i (symbol_for (xIsNext s)), clickIndex = Some i\<rparr>],
                xIsNext = \<not> xIsNext s,
                stepNumber = Suc ?k\<rparr>"
    by (simp add: handleClick_in_range)
  from k x e show "stepNumber s' = Suc (stepNumber s)"
    and "length (history s') = Suc (Suc (stepNumber s))"
    and "\<not> truthy (js_get (squares (history s ! stepNumber s)) i)"
    and "js_get (squares (history s' ! stepNumber s')) i = symbol_for (even (stepNumber s))"
    by (simp_all add: s' nth_append js_get_js_set)
qed

lemma placed_symbols_nth:
  "game_inv s \<Longrightarrow> m < length (placed_symbols cs s) \<Longrightarrow>
     placed_symbols cs s ! m = symbol_for (even (stepNumber s + m))"
proof (induction cs arbitrary: s m)
  case Nil
  then show ?case by simp
next
  case (Cons i cs)
  from Cons.prems(1) have "stepNumber s < length (history s)" by (simp add: game_inv_def)
  then have "\<exists>s'. handleClick i s = Inr s'"
    by (simp add: handleClick_in_range)
  then obtain s' where s': "handleClick i s = Inr s'" by blast
  with Cons.prems(1) have inv': "game_inv s'" by (rule game_inv_handleClick)
  show ?case
  proof (cases "s' = s")
    case True
    with Cons.prems s' Cons.IH [of s m] show ?thesis by simp
  next
    case False
    note st = handleClick_success(1) [OF Cons.prems(1) s' False]
    note sym = handleClick_success(4) [OF Cons.prems(1) s' False]
    show ?thesis
    proof (cases m)
      case 0
      with s' False sym show ?thesis by simp
    next
      case (Suc m')
      with Cons.prems(2) s' False have "m' < length (placed_symbols cs s')" by simp
      from Cons.IH [OF inv' this] s' False Suc st show ?thesis by simp
    qed
  qed
qed

lemma chain_keeps_cells:
  assumes ch: "history_chain h" and n: "Suc n < length h"
    and t: "truthy (js_get (squares (h ! n)) j)"
  shows "js_get (squares (h ! Suc n)) j = js_get (squares (h ! n)) j"
proof -
  from ch n obtain i where e: "\<not> truthy (js_get (squares (h ! n)) i)"
    and nx: "h ! Suc n = \<lparr>squares = js_set (squares (h ! n)) i (symbol_for (even n)),
                           clickIndex = Some i\<rparr>"
    unfolding history_chain_def by blast
  from e t have "j \<noteq> i" by auto
  with nx show ?thesis by (simp add: js_get_js_set)
qed

lemma chain_click:
  assumes ch: "history_chain h" and n: "Suc n < length h"
  shows "\<exists>i. clickIndex (h ! Suc n) = Some i
     \<and> \<not> truthy (js_get (squares (h ! n)) i)
     \<and> js_get (squares (h ! Suc n)) i = symbol_for (even n)
     \<and> squares (h ! Suc n) = js_set (squares (h ! n)) i (symbol_for (even n))"
proof -
  from ch n obtain i where e: "\<not> truthy (js_get (squares (h ! n)) i)"
    and nx: "h ! Suc n = \<lparr>squares = js_set (squares (h ! n)) i (symbol_for (even n)),
                           clickIndex = Some i\<rparr>"
    unfolding history_chain_def by blast
  then show ?thesis by (auto simp: js_get_js_set)
qed

section \<open>Facts about the move list\<close>

lemma Moves_nth:
  assumes "m < length h"
  shows "Moves h st f ! m =
     \<lparr>btn_key = m,
      btn_className = ''btn '' @ (if st = m then ''btn-primary'' else ''btn-secondary'') @ '' btn-block'',
      btn_desc = (if m \<noteq> 0
                  then ''Go to move #'' @ string_of_nat m @ '' '' @
                       (''(row:'' @ string_of_nat (to_number (clickIndex (h ! m)) div 3)
                        @ '', col:'' @ string_of_nat (to_number (clickIndex (h ! m)) mod 3) @ '')'')
                  else ''Go to game start''),
      btn_onClick = (\<lambda>_. f m)\<rparr>"
  using assms by (simp add: Moves_def Let_def)

lemma length_Moves: "length (Moves h st f) = length h"
  by (simp add: Moves_def)

section \<open>Example games, evaluated\<close>

lemma after_clicks_0123:
  "after_clicks [0, 1, 2, 3] =
     \<lparr>history =
        [\<lparr>squares = [Null, Null, Null, Null, Null, Null, Null, Null, Null], clickIndex = None\<rparr>,
         \<lparr>squares = [Str ''x'', Null, Null, Null, Null, Null, Null, Null, Null], clickIndex = Some 0\<rparr>,
         \<lparr>squares = [Str ''x'', Str ''o'', Null, Null, Null, Null, Null, Null, Null], clickIndex = Some 1\<rparr>,
         \<lparr>squares = [Str ''x'', Str ''o'', Str ''x'', Null, Null, Null, Null, Null, Null], clickIndex = Some 2\<rparr>,
         \<lparr>squares = [Str ''x'', Str ''o'', Str ''x'', Str ''o'', Null, Null, Null, Null, Null], clickIndex = Some 3\<rparr>],
      xIsNext = True, stepNumber = 4\<rparr>"
  by code_simp

lemma js_set_5_example:
  "js_set [Str ''x'', Str ''o'', Null, Null, Null, Null, Null, Null, Null] 5 (Str ''x'')
     = [Str ''x'', Str ''o'', Null, Null, Null, Str ''x'', Null, Null, Null]"
  by code_simp

lemma js_set_4_example:
  "js_set (replicate 9 Null) 4 (Str ''x'')
     = [Null, Null, Null, Null, Str ''x'', Null, Null, Null, Null]"
  by code_simp

lemma after_clicks_03142:
  "after_clicks [0, 3, 1, 4, 2] =
     \<lparr>history =
            [\<lparr>squares = [Null, Null, Null, Null, Null, Null, Null, Null, Null], clickIndex = None\<rparr>,
             \<lparr>squares = [Str ''x'', Null, Null, Null, Null, Null, Null, Null, Null], clickIndex = Some 0\<rparr>,
             \<lparr>squares = [Str ''x'', Null, Null, Str ''o'', Null, Null, Null, Null, Null], clickIndex = Some 3\<rparr>,
             \<lparr>squares = [Str ''x'', Str ''x'', Null, Str ''o'', Null, Null, Null, Null, Null], clickIndex = Some 1\<rparr>,
             \<lparr>squares = [Str ''x'', Str ''x'', Null, Str ''o'', Str ''o'', Null, Null, Null, Null], clickIndex = Some 4\<rparr>,
             \<lparr>squares = [Str ''x'', Str ''x'', Str ''x'', Str ''o'', Str ''o'', Null, Null, Null, Null], clickIndex = Some 2\<rparr>],
          xIsNext = False, stepNumber = 5\<rparr>"
  by code_simp

lemma winner_xxx:
  "calculateWinner [Str ''x'', Str ''x'', Str ''x'', Str ''o'', Str ''o'', Null, Null, Null, Null] = Str ''x''"
  by code_simp

lemma after_clicks_048:
  "after_clicks [0, 4, 8] =
     \<lparr>history =
        [\<lparr>squares = [Null, Null, Null, Null, Null, Null, Null, Null, Null], clickIndex = None\<rparr>,
         \<lparr>squares = [Str ''x'', Null, Null, Null, Null, Null, Null, Null, Null], clickIndex = Some 0\<rparr>,
         \<lparr>squares = [Str ''x'', Null, Null, Null, Str ''o'', Null, Null, Null, Null], clickIndex = Some 4\<rparr>,
         \<lparr>squares = [Str ''x'', Null, Null, Null, Str ''o'', Null, Null, Null, Str ''x''], clickIndex = Some 8\<rparr>],
      xIsNext = False, stepNumber = 3\<rparr>"
  by code_simp

lemma after_clicks_0408: "after_clicks [0, 4, 0, 8] = after_clicks [0, 4, 8]"
  by code_simp

lemma placed_symbols_0408:
  "placed_symbols [0, 4, 0, 8] initial_state = [Str ''x'', Str ''o'', Str ''x'']"
  by code_simp

section \<open>Properties\<close>

text \<open>
  C1. In a state whose step number is a position of the history, if the clicked cell of
  the current board is empty and \<open>calculateWinner\<close> finds no winner on that board,
  \<open>handleClick(i)\<close> yields the state whose history is the old one cut to the entries
  \<open>0..stepNumber\<close> followed by one new entry (the current board with cell \<open>i\<close>
  set to the symbol of the turn flag, and click index \<open>i\<close>), whose step number is
  the new history length minus one and whose turn flag is negated. A write inside the
  board is an update in place of the copy. In particular, in a game with five history
  entries, \<open>jumpTo(2)\<close> followed by \<open>handleClick(k)\<close> on a cell empty in the
  board of step 2 gives a history of four entries: the first three as before, then the
  new one; the former steps 3 and 4 are gone.
\<close>

theorem handleClick_appends:
  "(stepNumber s < length (history s)
      \<and> \<not> truthy (js_get (squares (history s ! stepNumber s)) i)
      \<and> calculateWinner (squares (history s ! stepNumber s)) = Null
    \<longrightarrow> (\<exists>s'. handleClick i s = Inr s'
          \<and> history s' =
              take (stepNumber s + 1) (history s)
              @ [\<lparr>squares = js_set (squares (history s ! stepNumber s)) i
                               (if xIsNext s then Str ''x'' else Str ''o''),
                  clickIndex = Some i\<rparr>]
          \<and> stepNumber s' = length (history s') - 1
          \<and> xIsNext s' = (\<not> xIsNext s)
          \<and> (\<forall>j. js_get (squares (last (history s'))) j
                 = (if j = i then (if xIsNext s then Str ''x'' else Str ''o'')
                    else js_get (squares (history s ! stepNumber s)) j))
          \<and> (i < length (squares (history s ! stepNumber s))
               \<longrightarrow> length (squares (last (history s')))
                     = length (squares (history s ! stepNumber s)))))
   \<and> (reachable t \<and> length (history t) = 5 \<and> \<not> truthy (js_get (squares (history t ! 2)) k)
    \<longrightarrow> (\<exists>t'. handleClick k (jumpTo 2 t) = Inr t'
          \<and> history t' =
              take 3 (history t)
              @ [\<lparr>squares = js_set (squares (history t ! 2)) k (Str ''x''), clickIndex = Some k\<rparr>]
          \<and> length (history t') = 4
          \<and> stepNumber t' = 3
          \<and> xIsNext t' = False))"
proof (intro conjI impI)
  assume a: "stepNumber s < length (history s)
      \<and> \<not> truthy (js_get (squares (history s ! stepNumber s)) i)
      \<and> calculateWinner (squares (history s ! stepNumber s)) = Null"
  then show "\<exists>s'. handleClick i s = Inr s'
          \<and> history s' =
              take (stepNumber s + 1) (history s)
              @ [\<lparr>squares = js_set (squares (history s ! stepNumber s)) i
                               (if xIsNext s then Str ''x'' else Str ''o''),
                  clickIndex = Some i\<rparr>]
          \<and> stepNumber s' = length (history s') - 1
          \<and> xIsNext s' = (\<not> xIsNext s)
          \<and> (\<forall>j. js_get (squares (last (history s'))) j
                 = (if j = i then (if xIsNext s then Str ''x'' else Str ''o'')
                    else js_get (squares (history s ! stepNumber s)) j))
          \<and> (i < length (squares (history s ! stepNumber s))
               \<longrightarrow> length (squares (last (history s')))
                     = length (squares (history s ! stepNumber s)))"
    by (simp add: handleClick_in_range symbol_for_def js_get_js_set length_js_set)
next
  assume a: "reachable t \<and> length (history t) = 5
      \<and> \<not> truthy (js_get (squares (history t ! 2)) k)"
  let ?h = "history t"
  from a have inv: "game_inv t" by (simp add: reachable_game_inv)
  then have ch: "history_chain ?h"
    and h0: "?h ! 0 = \<lparr>squares = replicate 9 Null, clickIndex = None\<rparr>"
    by (simp_all add: game_inv_def)
  from a have len: "Suc 0 < length ?h" "Suc (Suc 0) < length ?h" by simp_all
  from ch len(1) obtain i0 where
    "?h ! Suc 0 = \<lparr>squares = js_set (squares (?h ! 0)) i0 (symbol_for (even (0::nat))), clickIndex = Some i0\<rparr>"
    unfolding history_chain_def by blast
  moreover from ch len(2) obtain i1 where
    "?h ! Suc (Suc 0) = \<lparr>squares = js_set (squares (?h ! Suc 0)) i1 (symbol_for (even (Suc 0))), clickIndex = Some i1\<rparr>"
    unfolding history_chain_def by blast
  ultimately have "squares (?h ! 2) =
      js_set (js_set (replicate 9 Null) i0 (symbol_for True)) i1 (symbol_for False)"
    using h0 by (simp add: numeral_2_eq_2)
  then have nw: "calculateWinner (squares (?h ! 2)) = Null"
    by (simp add: no_winner_two_marks js_get_replicate_Null)
  let ?j = "jumpTo 2 t"
  from a have j: "stepNumber ?j < length (history ?j)" "history ?j = ?h" "stepNumber ?j = 2"
      "xIsNext ?j = True"
    by (simp_all add: jumpTo_def)
  from a nw show "\<exists>t'. handleClick k (jumpTo 2 t) = Inr t'
          \<and> history t' =
              take 3 (history t)
              @ [\<lparr>squares = js_set (squares (history t ! 2)) k (Str ''x''), clickIndex = Some k\<rparr>]
          \<and> length (history t') = 4
          \<and> stepNumber t' = 3
          \<and> xIsNext t' = False"
    by (simp add: handleClick_in_range [OF j(1)] j symbol_for_def)
qed

text \<open>
  The first move of a game on the centre cell; and the game of four moves on cells
  0, 1, 2, 3, taken back to step 2 and continued on cell 5.
\<close>

theorem handleClick_appends_witness:
  "handleClick 4 initial_state =
     Inr \<lparr>history =
            [\<lparr>squares = replicate 9 Null, clickIndex = None\<rparr>,
             \<lparr>squares = [Null, Null, Null, Null, Str ''x'', Null, Null, Null, Null], clickIndex = Some 4\<rparr>],
          xIsNext = False, stepNumber = 1\<rparr>
   \<and> length (history (after_clicks [0, 1, 2, 3])) = 5
   \<and> handleClick 5 (jumpTo 2 (after_clicks [0, 1, 2, 3])) =
     Inr \<lparr>history =
        [\<lparr>squares = [Null, Null, Null, Null, Null, Null, Null, Null, Null], clickIndex = None\<rparr>,
         \<lparr>squares = [Str ''x'', Null, Null, Null, Null, Null, Null, Null, Null], clickIndex = Some 0\<rparr>,
         \<lparr>squares = [Str ''x'', Str ''o'', Null, Null, Null, Null, Null, Null, Null], clickIndex = Some 1\<rparr>,
         \<lparr>squares = [Str ''x'', Str ''o'', Null, Null, Null, Str ''x'', Null, Null, Null], clickIndex = Some 5\<rparr>],
      xIsNext = False, stepNumber = 3\<rparr>"
proof -
  have "\<exists>s'. handleClick 4 initial_state = Inr s'
          \<and> history s' =
              take (stepNumber initial_state + 1) (history initial_state)
              @ [\<lparr>squares = js_set (squares (history initial_state ! stepNumber initial_state)) 4
                               (if xIsNext initial_state then Str ''x'' else Str ''o''),
                  clickIndex = Some 4\<rparr>]
          \<and> stepNumber s' = length (history s') - 1
          \<and> xIsNext s' = (\<not> xIsNext initial_state)"
    using handleClick_appends [of initial_state 4, THEN conjunct1]
    by (auto simp: initial_state_def js_get_def calculateWinner_empty_board)
  then have first: "handleClick 4 initial_state =
     Inr \<lparr>history =
            [\<lparr>squares = replicate 9 Null, clickIndex = None\<rparr>,
             \<lparr>squares = [Null, Null, Null, Null, Str ''x'', Null, Null, Null, Null], clickIndex = Some 4\<rparr>],
          xIsNext = False, stepNumber = 1\<rparr>"
    by (auto simp: initial_state_def js_set_4_example)
  let ?t = "after_clicks [0, 1, 2, 3]"
  have hyp: "reachable ?t \<and> length (history ?t) = 5 \<and> \<not> truthy (js_get (squares (history ?t ! 2)) 5)"
    using reachable_after_clicks [of "[0, 1, 2, 3]"] unfolding after_clicks_0123
    by (simp add: js_get_def)
  have "\<exists>t'. handleClick 5 (jumpTo 2 ?t) = Inr t'
          \<and> history t' =
              take 3 (history ?t)
              @ [\<lparr>squares = js_set (squares (history ?t ! 2)) 5 (Str ''x''), clickIndex = Some 5\<rparr>]
          \<and> length (history t') = 4
          \<and> stepNumber t' = 3
          \<and> xIsNext t' = False"
    using handleClick_appends [where t = ?t and k = 5, THEN conjunct2] hyp by blast
  then have second: "handleClick 5 (jumpTo 2 ?t) =
     Inr \<lparr>history =
        [\<lparr>squares = [Null, Null, Null, Null, Null, Null, Null, Null, Null], clickIndex = None\<rparr>,
         \<lparr>squares = [Str ''x'', Null, Null, Null, Null, Null, Null, Null, Null], clickIndex = Some 0\<rparr>,
         \<lparr>squares = [Str ''x'', Str ''o'', Null, Null, Null, Null, Null, Null, Null], clickIndex = Some 1\<rparr>,
         \<lparr>squares = [Str ''x'', Str ''o'', Null, Null, Null, Str ''x'', Null, Null, Null], clickIndex = Some 5\<rparr>],
      xIsNext = False, stepNumber = 3\<rparr>"
    unfolding after_clicks_0123 by (auto simp: js_set_5_example)
  from hyp first second show ?thesis by simp
qed

text \<open>
  C2. In a state whose step number is a position of the history, if the clicked cell of
  the current board is non-empty, or \<open>calculateWinner\<close> returns a winner on that
  board, \<open>handleClick\<close> returns the state unchanged (history, step number and turn
  flag) and raises nothing; this holds for every index, those of the nine cells
  included. Hence once the current board has a winner, no sequence of
  \<open>handleClick\<close> calls changes the state, in particular neither the step number nor
  the history length.
\<close>

theorem handleClick_noop:
  "(stepNumber s < length (history s)
      \<and> (truthy (js_get (squares (history s ! stepNumber s)) i)
           \<or> calculateWinner (squares (history s ! stepNumber s)) \<noteq> Null)
    \<longrightarrow> handleClick i s = Inr s)
   \<and> (stepNumber s < length (history s)
      \<and> calculateWinner (squares (history s ! stepNumber s)) \<noteq> Null
    \<longrightarrow> handleClicks cs s = Inr s)"
  by (simp add: handleClick_in_range handleClicks_noop)

text \<open>
  The game won by \<open>'x'\<close> on the first row after clicks on cells 0, 3, 1, 4, 2, and
  a click on the occupied cell 1 in the game of four moves.
\<close>

theorem handleClick_noop_witness:
  "calculateWinner (squares (history (after_clicks [0, 3, 1, 4, 2]) ! 5)) = Str ''x''
   \<and> handleClick 8 (after_clicks [0, 3, 1, 4, 2]) = Inr (after_clicks [0, 3, 1, 4, 2])
   \<and> handleClicks [5, 6, 7, 8, 9] (after_clicks [0, 3, 1, 4, 2]) = Inr (after_clicks [0, 3, 1, 4, 2])
   \<and> truthy (js_get (squares (history (after_clicks [0, 1, 2, 3]) ! 4)) 1)
   \<and> handleClick 1 (after_clicks [0, 1, 2, 3]) = Inr (after_clicks [0, 1, 2, 3])"
proof -
  let ?w = "after_clicks [0, 3, 1, 4, 2]"
  let ?t = "after_clicks [0, 1, 2, 3]"
  have w: "stepNumber ?w < length (history ?w)"
      "calculateWinner (squares (history ?w ! stepNumber ?w)) = Str ''x''"
      "stepNumber ?w = 5"
    unfolding after_clicks_03142 by (simp_all add: winner_xxx)
  have t: "stepNumber ?t < length (history ?t)"
      "truthy (js_get (squares (history ?t ! stepNumber ?t)) 1)"
      "stepNumber ?t = 4"
    unfolding after_clicks_0123 by (simp_all add: js_get_def)
  from w have "handleClick 8 ?w = Inr ?w" "handleClicks [5, 6, 7, 8, 9] ?w = Inr ?w"
    using handleClick_noop [of ?w 8 "[5, 6, 7, 8, 9]"] by simp_all
  moreover from t have "handleClick 1 ?t = Inr ?t"
    using handleClick_noop [of ?t 1 "[]"] by simp
  ultimately show ?thesis using w t by simp
qed

text \<open>
  C3. \<open>calculateWinner\<close> goes through exactly the eight fixed triples, rows first,
  then columns, then diagonals, and returns the symbol in the first cell of the first
  triple whose three cells are all non-empty and identical; when no triple matches it
  returns \<open>null\<close>, in particular on the empty board. Being a function of the
  board alone, it is pure.
\<close>

theorem calculateWinner_first_match:
  "lines = [(0, 1, 2), (3, 4, 5), (6, 7, 8), (0, 3, 6), (1, 4, 7), (2, 5, 8), (0, 4, 8), (2, 4, 6)]
   \<and> calculateWinner sq =
       (case find (spec_line_match sq) lines of
          None \<Rightarrow> Null
        | Some (a, b, c) \<Rightarrow> js_get sq a)
   \<and> (\<forall>k < length lines.
        spec_line_match sq (lines ! k) \<and> (\<forall>j < k. \<not> spec_line_match sq (lines ! j))
        \<longrightarrow> calculateWinner sq = js_get sq (fst (lines ! k)) \<and> truthy (calculateWinner sq))
   \<and> ((\<forall>k < length lines. \<not> spec_line_match sq (lines ! k)) \<longrightarrow> calculateWinner sq = Null)
   \<and> calculateWinner (replicate 9 Null) = Null"
proof (intro conjI allI impI)
  show "lines = [(0, 1, 2), (3, 4, 5), (6, 7, 8), (0, 3, 6), (1, 4, 7), (2, 5, 8), (0, 4, 8), (2, 4, 6)]"
    by (simp add: lines_def)
  show cw: "calculateWinner sq =
       (case find (spec_line_match sq) lines of
          None \<Rightarrow> Null
        | Some (a, b, c) \<Rightarrow> js_get sq a)"
    unfolding calculateWinner_def by (rule scan_lines_find)
  show "calculateWinner (replicate 9 Null) = Null"
    by (rule calculateWinner_empty_board)
  {
    fix k
    assume k: "k < length lines"
      and m: "spec_line_match sq (lines ! k) \<and> (\<forall>j < k. \<not> spec_line_match sq (lines ! j))"
    obtain a b c where l: "lines ! k = (a, b, c)" by (cases "lines ! k") auto
    from k m have "find (spec_line_match sq) lines = Some (lines ! k)"
      unfolding find_Some_iff by blast
    with cw l have r: "calculateWinner sq = js_get sq a" by simp
    from r l show "calculateWinner sq = js_get sq (fst (lines ! k))" by simp
    from m l r show "truthy (calculateWinner sq)" by (simp add: spec_line_match_def)
  }
  {
    assume "\<forall>k < length lines. \<not> spec_line_match sq (lines ! k)"
    then have "find (spec_line_match sq) lines = None"
      unfolding find_None_iff by (auto simp: in_set_conv_nth)
    with cw show "calculateWinner sq = Null" by simp
  }
qed

text \<open>
  A board won by \<open>'o'\<close> on the middle column while no row is complete: the first
  matching triple is the fifth one.
\<close>

theorem calculateWinner_first_match_witness:
  "calculateWinner [Str ''x'', Str ''o'', Null,
                    Str ''x'', Str ''o'', Null,
                    Null, Str ''o'', Str ''x''] = Str ''o''"
  using calculateWinner_first_match
    [of "[Str ''x'', Str ''o'', Null, Str ''x'', Str ''o'', Null, Null, Str ''o'', Str ''x'']",
      THEN conjunct2, THEN conjunct1]
  by (simp add: lines_def spec_line_match_def js_get_def)

text \<open>
  C4. In every state reachable from the initial state by \<open>handleClick\<close> calls and by
  \<open>jumpTo\<close> calls with a position of the history, the turn flag equals
  "the step number is even", the first history entry is still the initial one (the
  empty board, no click index), and the step number is a position of the history.
\<close>

theorem reachable_turn_and_start:
  "reachable s \<Longrightarrow>
     xIsNext s = even (stepNumber s)
     \<and> history s ! 0 = \<lparr>squares = replicate 9 Null, clickIndex = None\<rparr>
     \<and> stepNumber s < length (history s)"
  using reachable_game_inv [of s] by (simp add: game_inv_def)

text \<open>The game of three moves on cells 0, 4, 8, taken back to step 1.\<close>

theorem reachable_turn_and_start_witness:
  "stepNumber (jumpTo 1 (after_clicks [0, 4, 8])) = 1
   \<and> xIsNext (jumpTo 1 (after_clicks [0, 4, 8])) = False
   \<and> length (history (jumpTo 1 (after_clicks [0, 4, 8]))) = 4
   \<and> history (jumpTo 1 (after_clicks [0, 4, 8])) ! 0
       = \<lparr>squares = replicate 9 Null, clickIndex = None\<rparr>"
proof -
  let ?s = "after_clicks [0, 4, 8]"
  have len: "length (history ?s) = 4" unfolding after_clicks_048 by simp
  then have "reachable (jumpTo 1 ?s)"
    by (intro reachable_jumpTo reachable_after_clicks) simp
  from reachable_turn_and_start [OF this] len show ?thesis
    by (simp add: jumpTo_def)
qed

text \<open>
  C5. In every reachable state, every board of the history has as many \<open>'x'\<close> as
  \<open>'o'\<close>, or one more; a cell that is non-empty in an entry holds the same value in
  the next entry; the entry of move \<open>n + 1\<close> records the index of a cell that was
  empty before and now holds \<open>'x'\<close> when the move number is odd, \<open>'o'\<close> when it
  is even; a \<open>handleClick\<close> call that changes the state advances the step number by
  one and places the symbol given by the parity of the new step number. From the initial
  state, the symbols placed by the successful calls of any sequence of \<open>handleClick\<close>
  calls are \<open>'x'\<close>, \<open>'o'\<close>, \<open>'x'\<close>, \<open>'o'\<close>, and so on.
\<close>

theorem reachable_alternation:
  assumes "reachable s"
  shows "(\<forall>n < length (history s).
            int (count_list (squares (history s ! n)) (Str ''x''))
              - int (count_list (squares (history s ! n)) (Str ''o'')) \<in> {0, 1})
     \<and> (\<forall>n j. Suc n < length (history s) \<and> truthy (js_get (squares (history s ! n)) j)
            \<longrightarrow> js_get (squares (history s ! Suc n)) j = js_get (squares (history s ! n)) j)
     \<and> (\<forall>n. Suc n < length (history s) \<longrightarrow>
            (\<exists>i. clickIndex (history s ! Suc n) = Some i
               \<and> \<not> truthy (js_get (squares (history s ! n)) i)
               \<and> js_get (squares (history s ! Suc n)) i = (if odd (Suc n) then Str ''x'' else Str ''o'')))
     \<and> (\<forall>i s'. handleClick i s = Inr s' \<and> s' \<noteq> s \<longrightarrow>
            stepNumber s' = stepNumber s + 1
            \<and> js_get (squares (history s' ! stepNumber s')) i
                = (if odd (stepNumber s') then Str ''x'' else Str ''o''))
     \<and> (\<forall>m < length (placed_symbols cs initial_state).
            placed_symbols cs initial_state ! m = (if even m then Str ''x'' else Str ''o''))"
proof (intro conjI allI impI)
  from assms have inv: "game_inv s" by (rule reachable_game_inv)
  then have ch: "history_chain (history s)"
    and h0: "history s ! 0 = \<lparr>squares = replicate 9 Null, clickIndex = None\<rparr>"
    by (simp_all add: game_inv_def)
  {
    fix n
    assume "n < length (history s)"
    from chain_counts [OF ch h0 this]
    have "count_list (squares (history s ! n)) (Str ''x'') = (n + 1) div 2"
      "count_list (squares (history s ! n)) (Str ''o'') = n div 2"
      by simp_all
    then have "int (count_list (squares (history s ! n)) (Str ''x''))
              - int (count_list (squares (history s ! n)) (Str ''o'')) = int ((n + 1) div 2) - int (n div 2)"
      by simp
    also have "\<dots> \<in> {0, 1}" by (cases "even n") (auto elim: evenE oddE)
    finally show "int (count_list (squares (history s ! n)) (Str ''x''))
              - int (count_list (squares (history s ! n)) (Str ''o'')) \<in> {0, 1}" .
  }
  {
    fix n j
    assume "Suc n < length (history s) \<and> truthy (js_get (squares (history s ! n)) j)"
    then show "js_get (squares (history s ! Suc n)) j = js_get (squares (history s ! n)) j"
      using chain_keeps_cells [OF ch] by blast
  }
  {
    fix n
    assume "Suc n < length (history s)"
    from chain_click [OF ch this]
    show "\<exists>i. clickIndex (history s ! Suc n) = Some i
               \<and> \<not> truthy (js_get (squares (history s ! n)) i)
               \<and> js_get (squares (history s ! Suc n)) i = (if odd (Suc n) then Str ''x'' else Str ''o'')"
      by (auto simp: symbol_for_def)
  }
  {
    fix i s'
    assume a: "handleClick i s = Inr s' \<and> s' \<noteq> s"
    then have st: "stepNumber s' = Suc (stepNumber s)"
      and sym: "js_get (squares (history s' ! stepNumber s')) i = symbol_for (even (stepNumber s))"
      using handleClick_success(1) [OF inv, of i s'] handleClick_success(4) [OF inv, of i s']
      by blast+
    from st show "stepNumber s' = stepNumber s + 1" by simp
    from sym show "js_get (squares (history s' ! stepNumber s')) i
                = (if odd (stepNumber s') then Str ''x'' else Str ''o'')"
      by (simp add: st symbol_for_def)
  }
  {
    fix m
    assume "m < length (placed_symbols cs initial_state)"
    from placed_symbols_nth [OF game_inv_initial this]
    show "placed_symbols cs initial_state ! m = (if even m then Str ''x'' else Str ''o'')"
      by (simp add: symbol_for_def initial_state_def)
  }
qed

text \<open>Clicks on cells 0, 4, 0, 8: the third one hits an occupied cell.\<close>

theorem reachable_alternation_witness:
  "map (\<lambda>e. (count_list (squares e) (Str ''x''), count_list (squares e) (Str ''o'')))
       (history (after_clicks [0, 4, 0, 8]))
     = [(0, 0), (1, 0), (1, 1), (2, 1)]
   \<and> placed_symbols [0, 4, 0, 8] initial_state = [Str ''x'', Str ''o'', Str ''x'']"
proof -
  let ?s = "after_clicks [0, 4, 0, 8]"
  have "reachable ?s" by (rule reachable_after_clicks)
  note th = reachable_alternation [OF this, of "[0, 4, 0, 8]"]
  have "map (\<lambda>e. (count_list (squares e) (Str ''x''), count_list (squares e) (Str ''o'')))
       (history ?s) = [(0, 0), (1, 0), (1, 1), (2, 1)]"
    unfolding after_clicks_0408 after_clicks_048 by simp
  with th placed_symbols_0408 show ?thesis by simp
qed

text \<open>
  C6. \<open>jumpTo(step)\<close> sets the step number to \<open>step\<close> and the turn flag to
  "\<open>step\<close> is even"; the history, hence its length and every entry, stays as it was.
\<close>

theorem jumpTo_frame:
  "stepNumber (jumpTo step s) = step
   \<and> xIsNext (jumpTo step s) = even step
   \<and> history (jumpTo step s) = history s
   \<and> jumpTo step s = \<lparr>history = history s, xIsNext = even step, stepNumber = step\<rparr>"
  by (simp add: jumpTo_def even_iff_mod_2_eq_zero)

text \<open>
  C7. \<open>Status\<close> shows the winner text, naming the symbol that \<open>calculateWinner\<close>
  returns, and the \<open>bounce\<close> effect exactly when \<open>calculateWinner\<close> returns a
  winner; otherwise, a full board included, it shows the next player given by the turn
  flag. No other text is produced.
\<close>

theorem Status_text:
  "(calculateWinner sq \<noteq> Null \<longrightarrow>
      (\<exists>w. calculateWinner sq = Str w
         \<and> Status sq xn = \<lparr>status_className = ''status bounce'',
                             status_text = ''Winner is: '' @ w\<rparr>))
   \<and> (calculateWinner sq = Null \<longrightarrow>
        Status sq xn = \<lparr>status_className = ''status '',
                         status_text = ''Next player is: '' @ (if xn then ''x'' else ''o'')\<rparr>)
   \<and> (status_className (Status sq xn) = ''status bounce'') = (calculateWinner sq \<noteq> Null)
   \<and> (take 11 (status_text (Status sq xn)) = ''Winner is: '') = (calculateWinner sq \<noteq> Null)"
proof (cases "calculateWinner sq = Null")
  case True
  then show ?thesis by (simp add: Status_def)
next
  case False
  then have t: "truthy (calculateWinner sq)" by (simp add: truthy_calculateWinner)
  then obtain w where w: "calculateWinner sq = Str w" by (cases "calculateWinner sq") auto
  with t show ?thesis by (simp add: Status_def)
qed

text \<open>A full board without a winner, and a board won by \<open>'x'\<close>.\<close>

theorem Status_text_witness:
  "Status [Str ''x'', Str ''o'', Str ''x'',
           Str ''x'', Str ''o'', Str ''o'',
           Str ''o'', Str ''x'', Str ''x''] False
     = \<lparr>status_className = ''status '', status_text = ''Next player is: o''\<rparr>
   \<and> Status [Str ''x'', Str ''x'', Str ''x'',
             Str ''o'', Str ''o'', Null,
             Null, Null, Null] False
     = \<lparr>status_className = ''status bounce'', status_text = ''Winner is: x''\<rparr>"
  using Status_text [of "[Str ''x'', Str ''o'', Str ''x'', Str ''x'', Str ''o'', Str ''o'',
      Str ''o'', Str ''x'', Str ''x'']" False]
    Status_text [of "[Str ''x'', Str ''x'', Str ''x'', Str ''o'', Str ''o'', Null,
      Null, Null, Null]" False]
  by (simp add: calculateWinner_def lines_def js_get_def)

text \<open>
  C8. \<open>Moves\<close> renders one item per history entry, in the order of the history: the
  item at position \<open>m\<close> has key \<open>m\<close>, its button calls the \<open>onClick\<close>
  property with \<open>m\<close>, and it carries the highlight class \<open>btn-primary\<close> exactly
  when \<open>m\<close> is the active step number (\<open>btn-secondary\<close> otherwise). The item at
  position 0 reads \<open>Go to game start\<close>; an item at a position \<open>m > 0\<close> whose entry
  stores the click index \<open>i\<close> reads \<open>Go to move #m (row:r, col:c)\<close> with
  \<open>r = i div 3\<close> and \<open>c = i mod 3\<close>.
\<close>

theorem Moves_entries:
  "length (Moves h st f) = length h
   \<and> (\<forall>m < length h.
        btn_key (Moves h st f ! m) = m
        \<and> btn_onClick (Moves h st f ! m) () = f m
        \<and> btn_className (Moves h st f ! m)
            = (if m = st then ''btn btn-primary btn-block'' else ''btn btn-secondary btn-block'')
        \<and> (m = 0 \<longrightarrow> btn_desc (Moves h st f ! m) = ''Go to game start'')
        \<and> (0 < m \<longrightarrow>
             (\<forall>i. clickIndex (h ! m) = Some i \<longrightarrow>
                btn_desc (Moves h st f ! m)
                  = ''Go to move #'' @ string_of_nat m
                    @ '' (row:'' @ string_of_nat (i div 3)
                    @ '', col:'' @ string_of_nat (i mod 3) @ '')'')))"
  by (auto simp: length_Moves Moves_nth)

text \<open>A history of two entries, the second with click index 4: row 1, column 1.\<close>

theorem Moves_entries_witness:
  "length (Moves [\<lparr>squares = replicate 9 Null, clickIndex = None\<rparr>,
                  \<lparr>squares = [Null, Null, Null, Null, Str ''x'', Null, Null, Null, Null],
                   clickIndex = Some 4\<rparr>] 1 (\<lambda>m. m)) = 2
   \<and> map (\<lambda>b. (btn_key b, btn_className b, btn_desc b, btn_onClick b ()))
     (Moves [\<lparr>squares = replicate 9 Null, clickIndex = None\<rparr>,
             \<lparr>squares = [Null, Null, Null, Null, Str ''x'', Null, Null, Null, Null],
              clickIndex = Some 4\<rparr>] 1 (\<lambda>m. m))
     = [(0, ''btn btn-secondary btn-block'', ''Go to game start'', 0),
        (1, ''btn btn-primary btn-block'', ''Go to move #1 (row:1, col:1)'', 1)]"
proof -
  let ?h = "[\<lparr>squares = replicate 9 Null, clickIndex = None\<rparr>,
             \<lparr>squares = [Null, Null, Null, Null, Str ''x'', Null, Null, Null, Null],
              clickIndex = Some 4\<rparr>]"
  let ?M = "Moves ?h 1 (\<lambda>m. m)"
  note th = Moves_entries [of ?h 1 "\<lambda>m. m"]
  from th have len: "length ?M = 2" by simp
  have digits: "string_of_nat (Suc 0) = ''1''" by code_simp
  from th [THEN conjunct2, rule_format, of 0]
  have e0: "btn_key (?M ! 0) = 0" "btn_onClick (?M ! 0) () = 0"
    "btn_className (?M ! 0) = ''btn btn-secondary btn-block''"
    "btn_desc (?M ! 0) = ''Go to game start''"
    by simp_all
  from th [THEN conjunct2, rule_format, of 1]
  have e1: "btn_key (?M ! 1) = 1" "btn_onClick (?M ! 1) () = 1"
    "btn_className (?M ! 1) = ''btn btn-primary btn-block''"
    "btn_desc (?M ! 1) = ''Go to move #1 (row:1, col:1)''"
    by (simp_all add: digits)
  from len obtain a b where ab: "?M = [a, b]"
    by (auto simp: length_Suc_conv numeral_2_eq_2)
  from e0 e1 show ?thesis unfolding ab by simp
qed

text \<open>
  C9. \<open>handleClick\<close> has no range check on the cell index: in the initial state
  neither guard fires for index 9, and \<open>handleClick(9)\<close> appends an entry whose
  board has ten cells, the tenth being \<open>'x'\<close>; the step number advances to 1 and the
  turn flag flips.
\<close>

theorem handleClick_out_of_range:
  "handleClick 9 initial_state =
     Inr \<lparr>history = [\<lparr>squares = replicate 9 Null, clickIndex = None\<rparr>,
                     \<lparr>squares = replicate 9 Null @ [Str ''x''], clickIndex = Some 9\<rparr>],
          xIsNext = False,
          stepNumber = 1\<rparr>
   \<and> length (replicate 9 Null @ [Str ''x'']) = 10
   \<and> js_get (replicate 9 Null) 9 = Undefined
   \<and> calculateWinner (replicate 9 Null) = Null"
  by (simp add: handleClick_def initial_state_def calculateWinner_def lines_def
      js_get_def js_set_def Let_def)

text \<open>
  C10. \<open>calculateWinner\<close> is defined on arrays of every length: a position outside
  the array reads as an empty cell, so on every array, the empty one and those shorter
  than nine included, it returns \<open>null\<close> or a non-empty value stored in the array.
\<close>

theorem calculateWinner_total:
  "(calculateWinner sq = Null \<or> (truthy (calculateWinner sq) \<and> calculateWinner sq \<in> set sq))
   \<and> calculateWinner [] = Null
   \<and> (\<forall>i. length sq \<le> i \<longrightarrow> js_get sq i = Undefined \<and> \<not> truthy (js_get sq i))"
  using calculateWinner_result [of sq] calculateWinner_result [of "[]"]
  by (auto simp: js_get_def)

theorem calculateWinner_total_witness:
  "calculateWinner [Str ''x'', Str ''x'', Str ''x''] = Str ''x''
   \<and> calculateWinner [Str ''x'', Str ''x''] = Null
   \<and> calculateWinner [] = Null"
  using calculateWinner_total [of "[Str ''x'', Str ''x'', Str ''x'']"]
    calculateWinner_total [of "[Str ''x'', Str ''x'']"]
  by (simp add: calculateWinner_def lines_def js_get_def)

end
